theory Spec2Isabelle
  imports Main "HOL-Library.Sublist"
begin

section \<open>The receipts logger of src/lib/storage/receipts-logger.ts\<close>

subsection \<open>Values and records\<close>

text \<open>
  The values that \<^verbatim>\<open>JSON.parse\<close> can return and \<^verbatim>\<open>JSON.stringify\<close> can
  write: \<^verbatim>\<open>null\<close>, booleans, numbers, strings, arrays and objects (keys in insertion
  order). Numbers are restricted to the integers. Strings are lists of 8-bit characters,
  read as the code units U+0000 to U+00FF.
\<close>

datatype json =
    JNull
  | JBool bool
  | JNum int
  | JStr string
  | JArr "json list"
  | JObj "(string \<times> json) list"

text \<open>\<^verbatim>\<open>interface Receipt\<close>; a field marked \<^verbatim>\<open>?\<close> is an option.\<close>

record Receipt =
  ts :: string
  address :: string
  addressIndex :: "int option"
  challenge_id :: string
  nonce :: string
  hash :: string
  crypto_receipt :: "json option"
  isDevFee :: "bool option"

text \<open>\<^verbatim>\<open>interface ErrorLog\<close>. Its fields are prefixed, the names of \<^typ>\<open>Receipt\<close> being taken.\<close>

record ErrorLog =
  e_ts :: string
  e_address :: string
  e_addressIndex :: "int option"
  e_challenge_id :: string
  e_nonce :: string
  e_hash :: string
  e_error :: string
  e_response :: "json option"

text \<open>
  A TypeScript interface value is the object itself: the properties that are present, in
  the order of the declaration. An absent optional field is no property at all.
\<close>

definition opt_prop :: "string \<Rightarrow> ('a \<Rightarrow> json) \<Rightarrow> 'a option \<Rightarrow> (string \<times> json) list" where
  "opt_prop k f x = (case x of None \<Rightarrow> [] | Some y \<Rightarrow> [(k, f y)])"

definition receipt_json :: "Receipt \<Rightarrow> json" where
  "receipt_json r = JObj (
     [(''ts'', JStr (ts r)), (''address'', JStr (address r))]
     @ opt_prop ''addressIndex'' JNum (addressIndex r)
     @ [(''challenge_id'', JStr (challenge_id r)), (''nonce'', JStr (nonce r)),
        (''hash'', JStr (hash r))]
     @ opt_prop ''crypto_receipt'' (\<lambda>v. v) (crypto_receipt r)
     @ opt_prop ''isDevFee'' JBool (isDevFee r))"

definition errorlog_json :: "ErrorLog \<Rightarrow> json" where
  "errorlog_json e = JObj (
     [(''ts'', JStr (e_ts e)), (''address'', JStr (e_address e))]
     @ opt_prop ''addressIndex'' JNum (e_addressIndex e)
     @ [(''challenge_id'', JStr (e_challenge_id e)), (''nonce'', JStr (e_nonce e)),
        (''hash'', JStr (e_hash e)), (''error'', JStr (e_error e))]
     @ opt_prop ''response'' (\<lambda>v. v) (e_response e))"

subsection \<open>The platform: strings, arrays, file system, console\<close>

text \<open>
  \<^verbatim>\<open>String.prototype.trim\<close> removes white space and line terminators from both ends.
  Within U+0000 to U+00FF these are TAB, LF, VT, FF, CR, SP and NBSP.
\<close>

definition is_ws :: "char \<Rightarrow> bool" where
  "is_ws c \<longleftrightarrow> c \<in> set [CHR 0x09, CHR 0x0A, CHR 0x0B, CHR 0x0C, CHR 0x0D, CHR 0x20, CHR 0xA0]"

definition trim :: "string \<Rightarrow> string" where
  "trim s = rev (dropWhile is_ws (rev (dropWhile is_ws s)))"

text \<open>
  \<^verbatim>\<open>s.split('\n')\<close>: the pieces between the line feeds; never the empty array
  (\<^verbatim>\<open>''.split('\n')\<close> is \<^verbatim>\<open>['']\<close>).
\<close>

primrec split_nl :: "string \<Rightarrow> string list" where
  "split_nl [] = [[]]"
| "split_nl (c # cs) =
     (if c = CHR 0x0A then [] # split_nl cs
      else (c # hd (split_nl cs)) # tl (split_nl cs))"

text \<open>
  \<^verbatim>\<open>Array.prototype.slice(start)\<close> with an integer \<^verbatim>\<open>start\<close> and no end: a negative
  start counts from the end, and both are clamped to the array.
\<close>

definition slice :: "int \<Rightarrow> 'a list \<Rightarrow> 'a list" where
  "slice start xs =
     (let len = int (length xs);
          k = (if start < 0 then max (len + start) 0 else min start len)
      in drop (nat k) xs)"

datatype error = Error string

type_synonym path = string

text \<open>
  The world the logger runs in: the files and their contents, the directories, the paths
  at which a read, an append or a directory creation fails (with the message of the error
  thrown), and the calls of \<^verbatim>\<open>console.error\<close> so far, oldest first, each with its
  arguments. A file's content is the string that \<^verbatim>\<open>readFileSync(path, 'utf8')\<close> returns.
\<close>

record world =
  files :: "path \<Rightarrow> string option"
  dirs :: "path set"
  read_fault :: "path \<Rightarrow> string option"
  append_fault :: "path \<Rightarrow> string option"
  mkdir_fault :: "path \<Rightarrow> string option"
  console :: "string list list"

definition existsSync :: "path \<Rightarrow> world \<Rightarrow> bool" where
  "existsSync p w \<longleftrightarrow> files w p \<noteq> None \<or> p \<in> dirs w"

definition readFileSync :: "path \<Rightarrow> world \<Rightarrow> error + string" where
  "readFileSync p w =
     (case read_fault w p of
        Some message \<Rightarrow> Inl (Error message)
      | None \<Rightarrow>
          (case files w p of
             None \<Rightarrow> Inl (Error ''ENOENT: no such file or directory'')
           | Some content \<Rightarrow> Inr content))"

text \<open>A failed append leaves the file as it was; a successful one creates a missing file.\<close>

definition appendFileSync :: "path \<Rightarrow> string \<Rightarrow> world \<Rightarrow> (error + unit) \<times> world" where
  "appendFileSync p s w =
     (case append_fault w p of
        Some message \<Rightarrow> (Inl (Error message), w)
      | None \<Rightarrow>
          (Inr (), w\<lparr>files := (files w)(p \<mapsto> (case files w p of None \<Rightarrow> s | Some c \<Rightarrow> c @ s))\<rparr>))"

definition mkdirSync :: "path \<Rightarrow> world \<Rightarrow> (error + unit) \<times> world" where
  "mkdirSync p w =
     (case mkdir_fault w p of
        Some message \<Rightarrow> (Inl (Error message), w)
      | None \<Rightarrow> (Inr (), w\<lparr>dirs := insert p (dirs w)\<rparr>))"

definition console_error :: "string list \<Rightarrow> world \<Rightarrow> world" where
  "console_error args w = w\<lparr>console := console w @ [args]\<rparr>"

text \<open>\<^verbatim>\<open>path.join\<close> of a normalised directory and a plain name, on a POSIX system.\<close>

definition path_join :: "path \<Rightarrow> string \<Rightarrow> path" where
  "path_join d name = d @ ''/'' @ name"

subsection \<open>class ReceiptsLogger\<close>

record ReceiptsLogger =
  receiptsFile :: path
  errorsFile :: path

text \<open>
  The constructor, given \<^verbatim>\<open>process.cwd()\<close>. It has no \<^verbatim>\<open>try\<close>: an error of
  \<^verbatim>\<open>mkdirSync\<close> reaches the caller.
\<close>

definition new_ReceiptsLogger :: "path \<Rightarrow> world \<Rightarrow> (error + ReceiptsLogger) \<times> world" where
  "new_ReceiptsLogger cwd w =
     (let storageDir = path_join cwd ''storage'';
          this = \<lparr>receiptsFile = path_join storageDir ''receipts.jsonl'',
                  errorsFile = path_join storageDir ''errors.jsonl''\<rparr>
      in if \<not> existsSync storageDir w
         then (case mkdirSync storageDir w of
                 (Inl e, w') \<Rightarrow> (Inl e, w')
               | (Inr u, w') \<Rightarrow> (Inr this, w'))
         else (Inr this, w))"

text \<open>
  \<^verbatim>\<open>JSON.stringify\<close> and \<^verbatim>\<open>JSON.parse\<close> belong to the platform and are parameters:
  \<open>stringify\<close> is total on \<^typ>\<open>json\<close>, and \<open>parse\<close> returns \<open>None\<close> where
  \<^verbatim>\<open>JSON.parse\<close> throws its SyntaxError.

  Every method wraps its body in \<^verbatim>\<open>try\<close>/\<^verbatim>\<open>catch\<close>; the result type keeps a place
  for an error that would reach the caller.
\<close>

definition logReceipt ::
  "ReceiptsLogger \<Rightarrow> (json \<Rightarrow> string) \<Rightarrow> Receipt \<Rightarrow> world \<Rightarrow> (error + unit) \<times> world" where
  "logReceipt this stringify receipt w =
     (let line = stringify (receipt_json receipt) @ [CHR 0x0A]
      in case appendFileSync (receiptsFile this) line w of
           (Inr u, w') \<Rightarrow> (Inr (), w')
         | (Inl (Error message), w') \<Rightarrow>
             (Inr (), console_error [''[ReceiptsLogger] Failed to log receipt:'', message] w'))"

definition logError ::
  "ReceiptsLogger \<Rightarrow> (json \<Rightarrow> string) \<Rightarrow> ErrorLog \<Rightarrow> world \<Rightarrow> (error + unit) \<times> world" where
  "logError this stringify errorLog w =
     (let line = stringify (errorlog_json errorLog) @ [CHR 0x0A]
      in case appendFileSync (errorsFile this) line w of
           (Inr u, w') \<Rightarrow> (Inr (), w')
         | (Inl (Error message), w') \<Rightarrow>
             (Inr (), console_error [''[ReceiptsLogger] Failed to log error:'', message] w'))"

text \<open>
  The callback that the three readers pass to \<^verbatim>\<open>map\<close>, run over the lines from left to
  right: the parsed value, or \<^verbatim>\<open>null\<close> after a call of \<^verbatim>\<open>console.error\<close> with the
  reader's message and the line. The readers differ in the message only.
\<close>

fun map_parse ::
  "(string \<Rightarrow> json option) \<Rightarrow> string \<Rightarrow> string list \<Rightarrow> world \<Rightarrow> json list \<times> world" where
  "map_parse parse msg [] w = ([], w)"
| "map_parse parse msg (line # rest) w =
     (case parse line of
        Some v \<Rightarrow> (let (vs, w') = map_parse parse msg rest w in (v # vs, w'))
      | None \<Rightarrow>
          (let (vs, w') = map_parse parse msg rest (console_error [msg, line] w)
           in (JNull # vs, w')))"

definition readReceipts ::
  "ReceiptsLogger \<Rightarrow> (string \<Rightarrow> json option) \<Rightarrow> world \<Rightarrow> (error + json list) \<times> world" where
  "readReceipts this parse w =
     (if \<not> existsSync (receiptsFile this) w then (Inr [], w)
      else case readFileSync (receiptsFile this) w of
        Inl (Error message) \<Rightarrow>
          (Inr [], console_error [''[ReceiptsLogger] Failed to read receipts:'', message] w)
      | Inr content \<Rightarrow>
          (let lines = filter (\<lambda>line. length line > 0) (split_nl (trim content));
               (parsed, w') =
                  map_parse parse ''[ReceiptsLogger] Failed to parse receipt line:'' lines w
           in (Inr (filter (\<lambda>receipt. receipt \<noteq> JNull) parsed), w')))"

text \<open>The \<^verbatim>\<open>count\<close> of \<open>getRecentReceipts\<close> is an integer, of either sign.\<close>

definition getRecentReceipts ::
  "ReceiptsLogger \<Rightarrow> (string \<Rightarrow> json option) \<Rightarrow> int \<Rightarrow> world \<Rightarrow> (error + json list) \<times> world" where
  "getRecentReceipts this parse count w =
     (if \<not> existsSync (receiptsFile this) w then (Inr [], w)
      else case readFileSync (receiptsFile this) w of
        Inl (Error message) \<Rightarrow>
          (Inr [],
           console_error [''[ReceiptsLogger] Failed to read recent receipts:'', message] w)
      | Inr content \<Rightarrow>
          (let lines = filter (\<lambda>line. length line > 0) (split_nl (trim content));
               recentLines = slice (- count) lines;
               (parsed, w') =
                  map_parse parse ''[ReceiptsLogger] Failed to parse receipt line:'' recentLines w
           in (Inr (filter (\<lambda>receipt. receipt \<noteq> JNull) parsed), w')))"

definition readErrors ::
  "ReceiptsLogger \<Rightarrow> (string \<Rightarrow> json option) \<Rightarrow> world \<Rightarrow> (error + json list) \<times> world" where
  "readErrors this parse w =
     (if \<not> existsSync (errorsFile this) w then (Inr [], w)
      else case readFileSync (errorsFile this) w of
        Inl (Error message) \<Rightarrow>
          (Inr [], console_error [''[ReceiptsLogger] Failed to read errors:'', message] w)
      | Inr content \<Rightarrow>
          (let lines = filter (\<lambda>line. length line > 0) (split_nl (trim content));
               (parsed, w') =
                  map_parse parse ''[ReceiptsLogger] Failed to parse error line:'' lines w
           in (Inr (filter (\<lambda>errorLog. errorLog \<noteq> JNull) parsed), w')))"

subsection \<open>Vocabulary of the specification\<close>

text \<open>
  The lines of a file as every reader computes them: the non-empty pieces of the trimmed
  content between line feeds.
\<close>

definition file_lines :: "string \<Rightarrow> string list" where
  "file_lines content = filter (\<lambda>line. length line > 0) (split_nl (trim content))"

text \<open>The content of a file to which the lines \<open>ls\<close> were appended, each with its line feed.\<close>

definition unlines :: "string list \<Rightarrow> string" where
  "unlines ls = concat (map (\<lambda>l. l @ [CHR 0x0A]) ls)"

text \<open>
  What makes a record valid for the store: \<^verbatim>\<open>JSON.stringify\<close> writes it as one non-empty
  line that has no line feed inside and no white space at either end (an object is written
  from \<^verbatim>\<open>{\<close> to \<^verbatim>\<open>}\<close>, with the control characters of its strings escaped), and
  \<^verbatim>\<open>JSON.parse\<close> reads that line back as the same value.
\<close>

definition line_safe :: "string \<Rightarrow> bool" where
  "line_safe l \<longleftrightarrow> l \<noteq> [] \<and> CHR 0x0A \<notin> set l \<and> \<not> is_ws (hd l) \<and> \<not> is_ws (last l)"

definition round_trips :: "(json \<Rightarrow> string) \<Rightarrow> (string \<Rightarrow> json option) \<Rightarrow> json \<Rightarrow> bool" where
  "round_trips stringify parse v \<longleftrightarrow>
     line_safe (stringify v) \<and> parse (stringify v) = Some v"

text \<open>
  The records held by a list of lines: the value of every line that parses to something
  other than \<^verbatim>\<open>null\<close>, in order. The lines that do not parse are the unparseable ones.
\<close>

definition records_of :: "(string \<Rightarrow> json option) \<Rightarrow> string list \<Rightarrow> json list" where
  "records_of parse ls =
     List.map_filter
       (\<lambda>l. case parse l of None \<Rightarrow> None | Some v \<Rightarrow> if v = JNull then None else Some v) ls"

definition unparseable :: "(string \<Rightarrow> json option) \<Rightarrow> string list \<Rightarrow> string list" where
  "unparseable parse ls = filter (\<lambda>l. parse l = None) ls"

text \<open>A caller's sequence of appends, run in order; what each call returns is dropped.\<close>

datatype call = LogReceipt Receipt | LogError ErrorLog

fun do_call :: "ReceiptsLogger \<Rightarrow> (json \<Rightarrow> string) \<Rightarrow> call \<Rightarrow> world \<Rightarrow> world" where
  "do_call this stringify (LogReceipt receipt) w = snd (logReceipt this stringify receipt w)"
| "do_call this stringify (LogError errorLog) w = snd (logError this stringify errorLog w)"

definition run_calls :: "ReceiptsLogger \<Rightarrow> (json \<Rightarrow> string) \<Rightarrow> call list \<Rightarrow> world \<Rightarrow> world" where
  "run_calls this stringify cs w = fold (do_call this stringify) cs w"

fun is_receipt_call :: "call \<Rightarrow> bool" where
  "is_receipt_call (LogReceipt receipt) = True"
| "is_receipt_call (LogError errorLog) = False"

text \<open>What a reader of the file at \<open>p\<close> can see of the world, the same in two worlds.\<close>

definition same_file :: "path \<Rightarrow> world \<Rightarrow> world \<Rightarrow> bool" where
  "same_file p w w' \<longleftrightarrow>
     files w p = files w' p \<and> (p \<in> dirs w) = (p \<in> dirs w') \<and>
     read_fault w p = read_fault w' p \<and> append_fault w p = append_fault w' p"

text \<open>Append-only at \<open>p\<close>: a file of \<open>w\<close> is still there in \<open>w'\<close>, its old content a prefix.\<close>

definition grows_at :: "path \<Rightarrow> world \<Rightarrow> world \<Rightarrow> bool" where
  "grows_at p w w' =
     (case files w p of
        None \<Rightarrow> True
      | Some c \<Rightarrow> (case files w' p of None \<Rightarrow> False | Some c' \<Rightarrow> prefix c c'))"

subsection \<open>The example scenario of the specification\<close>

text \<open>
  Two receipts, the second a dev-fee one, and the lines \<^verbatim>\<open>JSON.stringify\<close> writes for
  them; an error record and its line. \<open>json_stringify_demo\<close> and \<open>json_parse_demo\<close>
  are \<^verbatim>\<open>JSON.stringify\<close> and \<^verbatim>\<open>JSON.parse\<close> on the values and the texts of the
  examples below: the three lines, the text \<^verbatim>\<open>null\<close>, and a text that is not JSON.
\<close>

definition r1 :: Receipt where
  "r1 = \<lparr>ts = ''2024-01-01T00:00:00Z'', address = ''0xA'', addressIndex = None,
          challenge_id = ''c1'', nonce = ''n1'', hash = ''h1'', crypto_receipt = None,
          isDevFee = None\<rparr>"

definition r2 :: Receipt where
  "r2 = \<lparr>ts = ''2024-01-01T00:00:05Z'', address = ''0xB'', addressIndex = None,
          challenge_id = ''c2'', nonce = ''n2'', hash = ''h2'', crypto_receipt = None,
          isDevFee = Some True\<rparr>"

definition line1 :: string where
  \<open>line1 = ''{"ts":"2024-01-01T00:00:00Z","address":"0xA","challenge_id":"c1","nonce":"n1","hash":"h1"}''\<close>

definition line2 :: string where
  \<open>line2 = ''{"ts":"2024-01-01T00:00:05Z","address":"0xB","challenge_id":"c2","nonce":"n2","hash":"h2","isDevFee":true}''\<close>

definition e1 :: ErrorLog where
  "e1 = \<lparr>e_ts = ''2024-01-01T00:00:07Z'', e_address = ''0xA'', e_addressIndex = None,
          e_challenge_id = ''c3'', e_nonce = ''n3'', e_hash = ''h3'', e_error = ''rejected'',
          e_response = None\<rparr>"

definition line_e1 :: string where
  \<open>line_e1 = ''{"ts":"2024-01-01T00:00:07Z","address":"0xA","challenge_id":"c3","nonce":"n3","hash":"h3","error":"rejected"}''\<close>

text \<open>A line cut off in the middle of a write: not JSON.\<close>

definition corrupt :: string where
  \<open>corrupt = ''{"ts":"2024-01-01T00:00:03Z","addr''\<close>

definition json_stringify_demo :: "json \<Rightarrow> string" where
  "json_stringify_demo v =
     (if v = receipt_json r1 then line1
      else if v = receipt_json r2 then line2
      else if v = errorlog_json e1 then line_e1
      else ''null'')"

definition json_parse_demo :: "string \<Rightarrow> json option" where
  "json_parse_demo s =
     (if s = line1 then Some (receipt_json r1)
      else if s = line2 then Some (receipt_json r2)
      else if s = line_e1 then Some (errorlog_json e1)
      else if s = ''null'' then Some JNull
      else None)"

definition demo_logger :: ReceiptsLogger where
  "demo_logger = \<lparr>receiptsFile = ''/app/storage/receipts.jsonl'',
                   errorsFile = ''/app/storage/errors.jsonl''\<rparr>"

text \<open>A world with the storage directory and no file, where nothing fails.\<close>

definition fresh_world :: world where
  "fresh_world = \<lparr>files = (\<lambda>p. None), dirs = {''/app/storage''}, read_fault = (\<lambda>p. None),
                   append_fault = (\<lambda>p. None), mkdir_fault = (\<lambda>p. None), console = []\<rparr>"

text \<open>The same world after the two receipts were logged.\<close>

definition two_receipts :: world where
  "two_receipts = fresh_world\<lparr>files := (files fresh_world)
      (''/app/storage/receipts.jsonl'' \<mapsto> unlines [line1, line2])\<rparr>"

text \<open>A receipts file with a corrupt line between two valid ones.\<close>

definition corrupt_between :: world where
  "corrupt_between = fresh_world\<lparr>files := (files fresh_world)
      (''/app/storage/receipts.jsonl'' \<mapsto> unlines [line1, corrupt, line2])\<rparr>"

text \<open>A receipts file with a line \<^verbatim>\<open>null\<close> and a corrupt line between two valid ones.\<close>

definition null_line :: world where
  "null_line = fresh_world\<lparr>files := (files fresh_world)
      (''/app/storage/receipts.jsonl'' \<mapsto> unlines [line1, ''null'', corrupt, line2])\<rparr>"

text \<open>The two receipts in a file that cannot be read, and a world where no append succeeds.\<close>

definition unreadable :: world where
  "unreadable = two_receipts\<lparr>read_fault := (read_fault two_receipts)
      (''/app/storage/receipts.jsonl'' \<mapsto> ''EACCES: permission denied'')\<rparr>"

definition read_only :: world where
  "read_only = two_receipts\<lparr>append_fault := (\<lambda>p. Some ''EROFS: read-only file system'')\<rparr>"

section \<open>Properties\<close>

subsection \<open>Strings and lines\<close>

lemma is_ws_nl [simp]: "is_ws (CHR 0x0A)"
  by (simp add: is_ws_def)

lemma split_nl_not_Nil [simp]: "split_nl s \<noteq> []"
  by (induction s) auto

lemma split_nl_no_nl: "CHR 0x0A \<notin> set l \<Longrightarrow> split_nl l = [l]"
  by (induction l) auto

lemma split_nl_append_nl:
  "CHR 0x0A \<notin> set l \<Longrightarrow> split_nl (l @ CHR 0x0A # rest) = l # split_nl rest"
  by (induction l) auto

lemma split_nl_unlines_append:
  "\<forall>l\<in>set ls. CHR 0x0A \<notin> set l \<Longrightarrow> CHR 0x0A \<notin> set x \<Longrightarrow>
     split_nl (unlines ls @ x) = ls @ [x]"
  by (induction ls) (auto simp: unlines_def split_nl_no_nl split_nl_append_nl)

lemma unlines_snoc: "unlines (ls @ [l]) = unlines ls @ l @ [CHR 0x0A]"
  by (simp add: unlines_def)

lemma unlines_Cons: "unlines (l # ls) = l @ CHR 0x0A # unlines ls"
  by (simp add: unlines_def)

lemma trim_safe:
  assumes "s \<noteq> []" "\<not> is_ws (hd s)" "\<not> is_ws (last s)"
  shows "trim (s @ [CHR 0x0A]) = s"
proof -
  from assms obtain c cs where s: "s = c # cs" by (cases s) auto
  with assms have "dropWhile is_ws (s @ [CHR 0x0A]) = s @ [CHR 0x0A]" by simp
  moreover from assms have "dropWhile is_ws (rev s) = rev s"
    by (cases "rev s") (auto simp: hd_rev)
  ultimately show ?thesis by (simp add: trim_def)
qed

lemma file_lines_unlines:
  assumes "\<forall>l\<in>set ls. line_safe l"
  shows "file_lines (unlines ls) = ls"
proof (cases ls rule: rev_cases)
  case Nil
  then show ?thesis by (simp add: file_lines_def unlines_def trim_def)
next
  case (snoc ks l)
  let ?s = "unlines ks @ l"
  from assms snoc have l: "line_safe l" and ks: "\<forall>k\<in>set ks. line_safe k" by auto
  have ne: "?s \<noteq> []" using l by (simp add: line_safe_def)
  have hd: "\<not> is_ws (hd ?s)"
  proof (cases ks)
    case Nil then show ?thesis using l by (simp add: unlines_def line_safe_def)
  next
    case (Cons k ks')
    with ks have "line_safe k" by simp
    then show ?thesis using Cons by (cases k) (auto simp: unlines_Cons line_safe_def)
  qed
  have lst: "\<not> is_ws (last ?s)" using l by (simp add: line_safe_def)
  have "trim (unlines ls) = ?s"
    using trim_safe[OF ne hd lst] snoc by (simp add: unlines_snoc)
  moreover have "split_nl ?s = ks @ [l]"
    using split_nl_unlines_append[of ks l] ks l by (simp add: line_safe_def)
  ultimately show ?thesis using assms snoc
    by (auto simp: file_lines_def line_safe_def filter_id_conv)
qed

subsection \<open>Readers and appends\<close>

lemma map_parse_fst:
  "fst (map_parse parse msg ls w) =
     map (\<lambda>l. case parse l of None \<Rightarrow> JNull | Some v \<Rightarrow> v) ls"
  by (induction ls arbitrary: w) (simp_all add: split_beta split: option.splits)

lemma map_parse_snd:
  "snd (map_parse parse msg ls w) =
     w\<lparr>console := console w @ map (\<lambda>l. [msg, l]) (unparseable parse ls)\<rparr>"
  by (induction ls arbitrary: w)
     (simp_all add: split_beta unparseable_def console_error_def split: option.splits)

lemma filter_parsed:
  "filter (\<lambda>v. v \<noteq> JNull) (map (\<lambda>l. case parse l of None \<Rightarrow> JNull | Some v \<Rightarrow> v) ls)
     = records_of parse ls"
  by (induction ls) (auto simp: records_of_def split: option.splits)

lemma read_lines:
  "(case map_parse parse msg ls w of (parsed, w') \<Rightarrow> (Inr (filter (\<lambda>v. v \<noteq> JNull) parsed), w'))
     = (Inr (records_of parse ls),
        w\<lparr>console := console w @ map (\<lambda>l. [msg, l]) (unparseable parse ls)\<rparr>)"
  using map_parse_fst[of parse msg ls w] map_parse_snd[of parse msg ls w] filter_parsed[of parse ls]
  by (cases "map_parse parse msg ls w") simp

lemma readReceipts_content:
  assumes "files w (receiptsFile this) = Some c" "read_fault w (receiptsFile this) = None"
  shows "readReceipts this parse w =
    (Inr (records_of parse (file_lines c)),
     w\<lparr>console := console w @ map (\<lambda>l. [''[ReceiptsLogger] Failed to parse receipt line:'', l])
          (unparseable parse (file_lines c))\<rparr>)"
  using assms
  by (simp add: readReceipts_def existsSync_def readFileSync_def Let_def read_lines file_lines_def)

lemma getRecentReceipts_content:
  assumes "files w (receiptsFile this) = Some c" "read_fault w (receiptsFile this) = None"
  shows "getRecentReceipts this parse count w =
    (Inr (records_of parse (slice (- count) (file_lines c))),
     w\<lparr>console := console w @ map (\<lambda>l. [''[ReceiptsLogger] Failed to parse receipt line:'', l])
          (unparseable parse (slice (- count) (file_lines c)))\<rparr>)"
  using assms
  by (simp add: getRecentReceipts_def existsSync_def readFileSync_def Let_def read_lines file_lines_def)

lemma readErrors_content:
  assumes "files w (errorsFile this) = Some c" "read_fault w (errorsFile this) = None"
  shows "readErrors this parse w =
    (Inr (records_of parse (file_lines c)),
     w\<lparr>console := console w @ map (\<lambda>l. [''[ReceiptsLogger] Failed to parse error line:'', l])
          (unparseable parse (file_lines c))\<rparr>)"
  using assms
  by (simp add: readErrors_def existsSync_def readFileSync_def Let_def read_lines file_lines_def)

lemma records_of_round_trips:
  assumes "\<forall>v\<in>set vs. round_trips stringify parse v \<and> v \<noteq> JNull"
  shows "records_of parse (map stringify vs) = vs"
  using assms
  by (induction vs) (auto simp: records_of_def round_trips_def)

lemma logReceipt_ok:
  assumes "append_fault w (receiptsFile this) = None"
  shows "logReceipt this stringify r w =
    (Inr (), w\<lparr>files := (files w)(receiptsFile this \<mapsto>
       (case files w (receiptsFile this) of None \<Rightarrow> [] | Some c \<Rightarrow> c)
         @ stringify (receipt_json r) @ [CHR 0x0A])\<rparr>)"
  using assms by (simp add: logReceipt_def appendFileSync_def Let_def split: option.splits)

lemma run_receipts_files:
  assumes "append_fault w (receiptsFile this) = None" "rs \<noteq> []"
  shows "files (run_calls this stringify (map LogReceipt rs) w) (receiptsFile this) =
    Some ((case files w (receiptsFile this) of None \<Rightarrow> [] | Some c \<Rightarrow> c)
           @ unlines (map (\<lambda>r. stringify (receipt_json r)) rs))
    \<and> read_fault (run_calls this stringify (map LogReceipt rs) w) = read_fault w"
  using assms
proof (induction rs arbitrary: w)
  case Nil
  then show ?case by simp
next
  case (Cons r rs)
  let ?w = "snd (logReceipt this stringify r w)"
  have w1: "?w = w\<lparr>files := (files w)(receiptsFile this \<mapsto>
       (case files w (receiptsFile this) of None \<Rightarrow> [] | Some c \<Rightarrow> c)
         @ stringify (receipt_json r) @ [CHR 0x0A])\<rparr>"
    using Cons.prems by (simp add: logReceipt_ok)
  show ?case
  proof (cases "rs = []")
    case True
    then show ?thesis using w1 by (simp add: run_calls_def unlines_def)
  next
    case False
    have "append_fault ?w (receiptsFile this) = None" using w1 Cons.prems by simp
    from Cons.IH[OF this False] w1 show ?thesis
      by (simp add: run_calls_def unlines_Cons)
  qed
qed

lemma receipt_json_inj: "receipt_json r = receipt_json r' \<Longrightarrow> r = r'"
  by (cases r; cases r') (auto simp: receipt_json_def opt_prop_def split: option.splits)

lemma receipt_json_not_null: "receipt_json r \<noteq> JNull"
  by (simp add: receipt_json_def)

lemma receipts_lines_safe:
  assumes "\<forall>r\<in>set rs. round_trips stringify parse (receipt_json r)"
  shows "\<forall>l\<in>set (map (\<lambda>r. stringify (receipt_json r)) rs). line_safe l"
  using assms by (auto simp: round_trips_def)

lemma records_of_receipts:
  assumes "\<forall>r\<in>set rs. round_trips stringify parse (receipt_json r)"
  shows "records_of parse (map (\<lambda>r. stringify (receipt_json r)) rs) = map receipt_json rs"
proof -
  have "\<forall>v\<in>set (map receipt_json rs). round_trips stringify parse v \<and> v \<noteq> JNull"
    using assms by (auto simp: receipt_json_not_null)
  from records_of_round_trips[OF this] show ?thesis by (simp add: comp_def)
qed

lemma slice_map: "slice k (map f xs) = map f (slice k xs)"
  by (simp add: slice_def Let_def drop_map)

text \<open>The store after appending \<open>rs\<close> to an absent or empty file, nothing failing.\<close>

lemma appended_store:
  assumes start: "files w (receiptsFile this) = None \<or> files w (receiptsFile this) = Some []"
    and nofault: "append_fault w (receiptsFile this) = None" "read_fault w (receiptsFile this) = None"
    and rs: "rs \<noteq> []"
    and w': "w' = run_calls this stringify (map LogReceipt rs) w"
  shows "files w' (receiptsFile this) = Some (unlines (map (\<lambda>r. stringify (receipt_json r)) rs))
         \<and> read_fault w' (receiptsFile this) = None"
  using run_receipts_files[OF nofault(1) rs, of stringify] start nofault(2) w' by auto

lemma getRecentReceipts_appended:
  assumes start: "files w (receiptsFile this) = None \<or> files w (receiptsFile this) = Some []"
    and nofault: "append_fault w (receiptsFile this) = None" "read_fault w (receiptsFile this) = None"
    and ok: "\<forall>r\<in>set rs. round_trips stringify parse (receipt_json r)"
    and rs: "rs \<noteq> []"
  shows "fst (getRecentReceipts this parse count (run_calls this stringify (map LogReceipt rs) w))
           = Inr (map receipt_json (slice (- count) rs))"
proof -
  let ?w = "run_calls this stringify (map LogReceipt rs) w"
  let ?ls = "map (\<lambda>r. stringify (receipt_json r)) rs"
  from appended_store[OF start nofault rs refl]
  have f: "files ?w (receiptsFile this) = Some (unlines ?ls)"
    and rf: "read_fault ?w (receiptsFile this) = None" by auto
  have lines: "file_lines (unlines ?ls) = ?ls"
    by (rule file_lines_unlines[OF receipts_lines_safe[OF ok]])
  have sl: "slice (- count) ?ls = map (\<lambda>r. stringify (receipt_json r)) (slice (- count) rs)"
    by (rule slice_map)
  have "\<forall>r\<in>set (slice (- count) rs). round_trips stringify parse (receipt_json r)"
    using ok by (auto simp: slice_def Let_def dest: in_set_dropD)
  from records_of_receipts[OF this] show ?thesis
    by (simp add: getRecentReceipts_content[OF f rf] lines sl)
qed

lemma slice_neg: "0 < k \<Longrightarrow> slice (- k) xs = drop (length xs - nat k) xs"
  by (auto simp: slice_def Let_def max_def nat_diff_distrib' intro: arg_cong2[where f = drop])

lemma slice_nonneg: "0 \<le> j \<Longrightarrow> slice j xs = drop (nat j) xs"
  by (auto simp: slice_def Let_def min_def)

lemma getRecentReceipts_appended_all:
  assumes start: "files w (receiptsFile this) = None \<or> files w (receiptsFile this) = Some []"
    and nofault: "append_fault w (receiptsFile this) = None" "read_fault w (receiptsFile this) = None"
    and ok: "\<forall>r\<in>set rs. round_trips stringify parse (receipt_json r)"
  shows "fst (getRecentReceipts this parse count (run_calls this stringify (map LogReceipt rs) w))
           = Inr (map receipt_json (slice (- count) rs))"
proof (cases "rs = []")
  case True
  then show ?thesis using start nofault
    by (auto simp: run_calls_def getRecentReceipts_def existsSync_def readFileSync_def
        getRecentReceipts_content file_lines_def trim_def records_of_def List.map_filter_def
        slice_def split: sum.splits error.splits)
next
  case False
  from getRecentReceipts_appended[OF start nofault ok False] show ?thesis .
qed

lemma records_of_append: "records_of parse (xs @ ys) = records_of parse xs @ records_of parse ys"
  by (simp add: records_of_def List.map_filter_def)

lemma records_unparseable_length:
  "length (records_of parse ls) + length (unparseable parse ls) \<le> length ls"
  by (induction ls) (auto simp: records_of_def unparseable_def split: option.splits)

text \<open>With a count of 0 the window is the whole file.\<close>

lemma getRecentReceipts_zero_reads_all:
  "fst (getRecentReceipts this parse 0 w) = fst (readReceipts this parse w)"
  by (simp add: getRecentReceipts_def readReceipts_def slice_def Let_def split_beta
      map_parse_fst split: sum.splits error.splits)

lemma readReceipts_Inr: "\<exists>vs. fst (readReceipts this parse w) = Inr vs"
  by (simp add: readReceipts_def Let_def split_beta split: sum.splits error.splits)

lemma getRecentReceipts_Inr: "\<exists>vs. fst (getRecentReceipts this parse count w) = Inr vs"
  by (simp add: getRecentReceipts_def Let_def split_beta split: sum.splits error.splits)

lemma readErrors_Inr: "\<exists>vs. fst (readErrors this parse w) = Inr vs"
  by (simp add: readErrors_def Let_def split_beta split: sum.splits error.splits)

lemma grows_at_refl: "grows_at p w w"
  by (simp add: grows_at_def split: option.splits)

lemma grows_at_trans: "grows_at p w w' \<Longrightarrow> grows_at p w' w'' \<Longrightarrow> grows_at p w w''"
  by (auto simp: grows_at_def split: option.splits)

lemma do_call_grows: "grows_at p w (do_call this stringify c w)"
  by (cases c)
     (simp_all add: logReceipt_def logError_def appendFileSync_def Let_def console_error_def
      grows_at_def split: option.splits)

lemma run_calls_grows: "grows_at p w (run_calls this stringify cs w)"
proof (induction cs arbitrary: w)
  case Nil
  show ?case by (simp add: run_calls_def grows_at_refl)
next
  case (Cons c cs)
  from grows_at_trans[OF do_call_grows Cons.IH[of "do_call this stringify c w"]]
  show ?case by (simp add: run_calls_def)
qed

subsection \<open>One file at a time\<close>

lemma same_file_refl: "same_file p w w"
  by (simp add: same_file_def)

lemma readReceipts_same_file:
  assumes "same_file (receiptsFile this) w w'"
  shows "fst (readReceipts this parse w) = fst (readReceipts this parse w')"
    and "fst (getRecentReceipts this parse count w) = fst (getRecentReceipts this parse count w')"
  using assms
  by (simp_all add: same_file_def readReceipts_def getRecentReceipts_def existsSync_def
      readFileSync_def Let_def split_beta map_parse_fst
      split: option.splits)

lemma readErrors_same_file:
  assumes "same_file (errorsFile this) w w'"
  shows "fst (readErrors this parse w) = fst (readErrors this parse w')"
  using assms
  by (simp add: same_file_def readErrors_def existsSync_def
      readFileSync_def Let_def split_beta map_parse_fst
      split: option.splits)

lemma new_ReceiptsLogger_paths:
  assumes "fst (new_ReceiptsLogger cwd w0) = Inr this"
  shows "receiptsFile this \<noteq> errorsFile this"
  using assms
  by (auto simp: new_ReceiptsLogger_def Let_def path_join_def
      split: if_splits prod.splits sum.splits)

lemma appendFileSync_same_file:
  assumes "same_file p w w'"
  shows "same_file p (snd (appendFileSync q s w)) (snd (appendFileSync q s w'))"
proof (cases "q = p")
  case True
  with assms show ?thesis
    by (simp add: same_file_def appendFileSync_def split: option.splits)
next
  case False
  with assms show ?thesis
    by (simp add: same_file_def appendFileSync_def split: option.splits)
qed

lemma logReceipt_world:
  "same_file p (snd (logReceipt this stringify r w)) w' =
   same_file p (snd (appendFileSync (receiptsFile this)
                      (stringify (receipt_json r) @ [CHR 0x0A]) w)) w'"
  "same_file p w' (snd (logReceipt this stringify r w)) =
   same_file p w' (snd (appendFileSync (receiptsFile this)
                      (stringify (receipt_json r) @ [CHR 0x0A]) w))"
  by (simp_all add: logReceipt_def Let_def same_file_def console_error_def
      split: prod.splits sum.splits error.splits)

lemma logError_world:
  "same_file p (snd (logError this stringify e w)) w' =
   same_file p (snd (appendFileSync (errorsFile this)
                      (stringify (errorlog_json e) @ [CHR 0x0A]) w)) w'"
  "same_file p w' (snd (logError this stringify e w)) =
   same_file p w' (snd (appendFileSync (errorsFile this)
                      (stringify (errorlog_json e) @ [CHR 0x0A]) w))"
  by (simp_all add: logError_def Let_def same_file_def console_error_def
      split: prod.splits sum.splits error.splits)

lemma do_call_same_file:
  assumes "same_file p w w'"
  shows "same_file p (do_call this stringify c w) (do_call this stringify c w')"
  using appendFileSync_same_file[OF assms]
  by (cases c) (simp_all add: logReceipt_world logError_world)

lemma do_call_other_file:
  assumes "same_file (receiptsFile this) w w'" "receiptsFile this \<noteq> errorsFile this"
  shows "same_file (receiptsFile this) (do_call this stringify (LogError e) w) w'"
    using assms
  by (simp add: same_file_def logError_def appendFileSync_def Let_def
      console_error_def split: option.splits)

lemma do_call_other_file':
  assumes "same_file (errorsFile this) w w'" "receiptsFile this \<noteq> errorsFile this"
  shows "same_file (errorsFile this) (do_call this stringify (LogReceipt r) w) w'"
    using assms
  by (simp add: same_file_def logReceipt_def appendFileSync_def Let_def
      console_error_def split: option.splits)

lemma run_calls_receipts_only:
  assumes "receiptsFile this \<noteq> errorsFile this" "same_file (receiptsFile this) w w'"
  shows "same_file (receiptsFile this) (run_calls this stringify cs w)
           (run_calls this stringify (filter is_receipt_call cs) w')"
  using assms(2)
proof (induction cs arbitrary: w w')
  case Nil
  then show ?case by (simp add: run_calls_def)
next
  case (Cons c cs)
  show ?case
  proof (cases c)
    case (LogReceipt r)
    with Cons.IH[OF do_call_same_file[OF Cons.prems, of this stringify c]]
    show ?thesis by (simp add: run_calls_def)
  next
    case (LogError e)
    with Cons.IH[OF do_call_other_file[OF Cons.prems assms(1), of stringify e]]
    show ?thesis by (simp add: run_calls_def)
  qed
qed

lemma run_calls_errors_only:
  assumes "receiptsFile this \<noteq> errorsFile this" "same_file (errorsFile this) w w'"
  shows "same_file (errorsFile this) (run_calls this stringify cs w)
           (run_calls this stringify (filter (\<lambda>c. \<not> is_receipt_call c) cs) w')"
  using assms(2)
proof (induction cs arbitrary: w w')
  case Nil
  then show ?case by (simp add: run_calls_def)
next
  case (Cons c cs)
  show ?case
  proof (cases c)
    case (LogReceipt r)
    with Cons.IH[OF do_call_other_file'[OF Cons.prems assms(1), of stringify r]]
    show ?thesis by (simp add: run_calls_def)
  next
    case (LogError e)
    with Cons.IH[OF do_call_same_file[OF Cons.prems, of this stringify c]]
    show ?thesis by (simp add: run_calls_def)
  qed
qed

subsection \<open>The example scenario\<close>

lemma r1_neq_r2: "receipt_json r1 \<noteq> receipt_json r2"
  by (simp add: receipt_json_def r1_def r2_def opt_prop_def)

lemma line1_neq_line2: "line1 \<noteq> line2"
  by (simp add: line1_def line2_def)

lemma line_safe_line1: "line_safe line1"
  by (simp add: line_safe_def line1_def is_ws_def)

lemma line_safe_line2: "line_safe line2"
  by (simp add: line_safe_def line2_def is_ws_def)

lemma demo_round_trips:
  "round_trips json_stringify_demo json_parse_demo (receipt_json r1)"
  "round_trips json_stringify_demo json_parse_demo (receipt_json r2)"
  using r1_neq_r2 line1_neq_line2 line_safe_line1 line_safe_line2
  by (auto simp: round_trips_def json_stringify_demo_def json_parse_demo_def)

lemma two_receipts_run:
  "run_calls demo_logger json_stringify_demo [LogReceipt r1, LogReceipt r2] fresh_world = two_receipts"
  using r1_neq_r2
  by (simp add: run_calls_def logReceipt_def appendFileSync_def fresh_world_def two_receipts_def
      demo_logger_def json_stringify_demo_def Let_def unlines_def)

lemma file_lines_two: "file_lines (unlines [line1, line2]) = [line1, line2]"
  using file_lines_unlines[of "[line1, line2]"] line_safe_line1 line_safe_line2
  by simp

lemma two_receipts_file:
  "files two_receipts (receiptsFile demo_logger) = Some (unlines [line1, line2])"
  "read_fault two_receipts (receiptsFile demo_logger) = None"
  by (simp_all add: two_receipts_def fresh_world_def demo_logger_def)

lemma records_of_demo: "records_of json_parse_demo [line1, line2] = [receipt_json r1, receipt_json r2]"
  using line1_neq_line2
  by (simp add: records_of_def json_parse_demo_def receipt_json_not_null)

lemma line_safe_corrupt: "line_safe corrupt"
  by (simp add: line_safe_def corrupt_def is_ws_def)

lemma line_safe_null: "line_safe ''null''"
  by (simp add: line_safe_def is_ws_def)

lemma demo_lines_distinct:
  "distinct [line1, line2, line_e1, ''null'', corrupt]"
  by (simp add: line1_def line2_def line_e1_def corrupt_def)

lemma parse_demo_simps:
  "json_parse_demo line1 = Some (receipt_json r1)"
  "json_parse_demo line2 = Some (receipt_json r2)"
  "json_parse_demo line_e1 = Some (errorlog_json e1)"
  "json_parse_demo ''null'' = Some JNull"
  "json_parse_demo corrupt = None"
  using demo_lines_distinct by (auto simp: json_parse_demo_def)

lemma corrupt_between_file:
  "files corrupt_between (receiptsFile demo_logger) = Some (unlines [line1, corrupt, line2])"
  "read_fault corrupt_between (receiptsFile demo_logger) = None"
  by (simp_all add: corrupt_between_def fresh_world_def demo_logger_def)

lemma file_lines_corrupt_between:
  "file_lines (unlines [line1, corrupt, line2]) = [line1, corrupt, line2]"
  using file_lines_unlines[of "[line1, corrupt, line2]"] line_safe_line1 line_safe_line2
    line_safe_corrupt
  by simp

lemma null_line_file:
  "files null_line (receiptsFile demo_logger) = Some (unlines [line1, ''null'', corrupt, line2])"
  "read_fault null_line (receiptsFile demo_logger) = None"
  by (simp_all add: null_line_def fresh_world_def demo_logger_def)

lemma file_lines_null_line:
  "file_lines (unlines [line1, ''null'', corrupt, line2]) = [line1, ''null'', corrupt, line2]"
  using file_lines_unlines[of "[line1, ''null'', corrupt, line2]"] line_safe_line1
    line_safe_line2 line_safe_corrupt line_safe_null
  by simp

lemma demo_logger_new: "fst (new_ReceiptsLogger ''/app'' fresh_world) = Inr demo_logger"
  by (simp add: new_ReceiptsLogger_def existsSync_def fresh_world_def path_join_def
      demo_logger_def Let_def)

section \<open>The claims\<close>

subsection \<open>C1: a count of zero\<close>

text \<open>
  C1 says that \<open>getRecentReceipts\<close> with a count of 0 returns the empty sequence whatever
  the file holds. The method takes \<^verbatim>\<open>lines.slice(-count)\<close>, and \<^verbatim>\<open>slice(-0)\<close> is
  \<^verbatim>\<open>slice(0)\<close>, the whole array: on the store holding the two receipts of the example
  scenario, a count of 0 returns both receipts.
\<close>

theorem getRecentReceipts_zero_returns_all:
  "run_calls demo_logger json_stringify_demo [LogReceipt r1, LogReceipt r2] fresh_world
     = two_receipts
   \<and> fst (getRecentReceipts demo_logger json_parse_demo 0 two_receipts)
     = Inr [receipt_json r1, receipt_json r2]"
  by (simp add: two_receipts_run getRecentReceipts_content[OF two_receipts_file]
      file_lines_two slice_def records_of_demo)

subsection \<open>C2: what was appended is what is read\<close>

text \<open>
  C2: starting from an absent or empty receipts file, with no append or read failing, after
  \<open>logReceipt\<close> was called on the valid records \<open>rs\<close> in order, \<open>readReceipts\<close>
  returns exactly the objects of \<open>rs\<close>, in append order; so its last element is the
  record appended last. The objects determine the records, optional fields and payloads
  included: no other list of records has these objects.
\<close>

theorem readReceipts_round_trip:
  assumes start: "files w (receiptsFile this) = None \<or> files w (receiptsFile this) = Some []"
    and nofault: "append_fault w (receiptsFile this) = None"
      "read_fault w (receiptsFile this) = None"
    and ok: "\<forall>r\<in>set rs. round_trips stringify parse (receipt_json r)"
  shows "\<exists>vs. fst (readReceipts this parse (run_calls this stringify (map LogReceipt rs) w))
                = Inr vs
              \<and> vs = map receipt_json rs
              \<and> length vs = length rs
              \<and> (rs \<noteq> [] \<longrightarrow> last vs = receipt_json (last rs))
              \<and> (\<forall>rs'. vs = map receipt_json rs' \<longrightarrow> rs' = rs)"
proof -
  have "fst (readReceipts this parse (run_calls this stringify (map LogReceipt rs) w))
           = Inr (map receipt_json rs)"
  proof (cases "rs = []")
    case True
    then show ?thesis using start nofault
      by (auto simp: run_calls_def readReceipts_def existsSync_def readFileSync_def
          readReceipts_content file_lines_def trim_def records_of_def List.map_filter_def
          split: sum.splits error.splits)
  next
    case False
    let ?w = "run_calls this stringify (map LogReceipt rs) w"
    let ?ls = "map (\<lambda>r. stringify (receipt_json r)) rs"
    from appended_store[OF start nofault False refl]
    have f: "files ?w (receiptsFile this) = Some (unlines ?ls)"
      and rf: "read_fault ?w (receiptsFile this) = None" by auto
    have lines: "file_lines (unlines ?ls) = ?ls"
      by (rule file_lines_unlines[OF receipts_lines_safe[OF ok]])
    show ?thesis
      by (simp add: readReceipts_content[OF f rf] lines records_of_receipts[OF ok])
  qed
  moreover have "rs \<noteq> [] \<longrightarrow> last (map receipt_json rs) = receipt_json (last rs)"
    by (simp add: last_map)
  moreover have "\<forall>rs'. map receipt_json rs = map receipt_json rs' \<longrightarrow> rs' = rs"
    using receipt_json_inj by (auto simp: inj_on_def dest!: map_inj_on[where f = receipt_json])
  ultimately show ?thesis by simp
qed

theorem readReceipts_round_trip_witness:
  "round_trips json_stringify_demo json_parse_demo (receipt_json r1)
   \<and> round_trips json_stringify_demo json_parse_demo (receipt_json r2)
   \<and> files fresh_world (receiptsFile demo_logger) = None
   \<and> fst (readReceipts demo_logger json_parse_demo
          (run_calls demo_logger json_stringify_demo [LogReceipt r1, LogReceipt r2] fresh_world))
     = Inr [receipt_json r1, receipt_json r2]"
  using readReceipts_round_trip[of fresh_world demo_logger "[r1, r2]" json_stringify_demo
      json_parse_demo] demo_round_trips
  by (auto simp: fresh_world_def)

subsection \<open>C3: the last k receipts\<close>

text \<open>
  C3: for a count \<open>k\<close> of at least 1 and a store to which the valid records \<open>rs\<close> were
  appended (from an absent or empty file, nothing failing), \<open>getRecentReceipts\<close> returns
  the last \<open>min k n\<close> of the \<open>n\<close> records, in append order, oldest of the tail first;
  these are \<open>min k n\<close> records, and all of \<open>rs\<close> when \<open>k\<close> exceeds \<open>n\<close>. The
  result is a value, never an error.
\<close>

theorem getRecentReceipts_last_k:
  assumes start: "files w (receiptsFile this) = None \<or> files w (receiptsFile this) = Some []"
    and nofault: "append_fault w (receiptsFile this) = None"
      "read_fault w (receiptsFile this) = None"
    and ok: "\<forall>r\<in>set rs. round_trips stringify parse (receipt_json r)"
    and k: "1 \<le> k"
  shows "\<exists>vs. fst (getRecentReceipts this parse k
                     (run_calls this stringify (map LogReceipt rs) w)) = Inr vs
              \<and> vs = map receipt_json (drop (length rs - min (nat k) (length rs)) rs)
              \<and> length vs = min (nat k) (length rs)
              \<and> (int (length rs) < k \<longrightarrow> vs = map receipt_json rs)"
proof -
  have "slice (- k) rs = drop (length rs - min (nat k) (length rs)) rs"
    using k by (simp add: slice_neg min_def)
  with getRecentReceipts_appended_all[OF start nofault ok, of k] show ?thesis
    by auto
qed

theorem getRecentReceipts_last_k_witness:
  "fst (getRecentReceipts demo_logger json_parse_demo 1
          (run_calls demo_logger json_stringify_demo [LogReceipt r1, LogReceipt r2] fresh_world))
     = Inr [receipt_json r2]"
  using getRecentReceipts_last_k[of fresh_world demo_logger "[r1, r2]" json_stringify_demo
      json_parse_demo 1] demo_round_trips
  by (auto simp: fresh_world_def)

subsection \<open>C4: a missing or unreadable file\<close>

text \<open>
  C4: each of \<open>readReceipts\<close>, \<open>getRecentReceipts\<close> and \<open>readErrors\<close> returns the
  empty sequence and leaves the world as it is when its file does not exist; returns the
  empty sequence after one call of \<^verbatim>\<open>console.error\<close> with the error's message when the
  file exists and reading it fails; and in every world returns a value, never an error.
\<close>

theorem reads_missing_or_unreadable:
  "(\<not> existsSync (receiptsFile this) w \<longrightarrow>
      readReceipts this parse w = (Inr [], w)
      \<and> getRecentReceipts this parse count w = (Inr [], w))
   \<and> (\<not> existsSync (errorsFile this) w \<longrightarrow> readErrors this parse w = (Inr [], w))
   \<and> (existsSync (receiptsFile this) w
        \<and> readFileSync (receiptsFile this) w = Inl (Error message) \<longrightarrow>
      readReceipts this parse w =
        (Inr [], console_error [''[ReceiptsLogger] Failed to read receipts:'', message] w)
      \<and> getRecentReceipts this parse count w =
        (Inr [],
         console_error [''[ReceiptsLogger] Failed to read recent receipts:'', message] w))
   \<and> (existsSync (errorsFile this) w
        \<and> readFileSync (errorsFile this) w = Inl (Error message) \<longrightarrow>
      readErrors this parse w =
        (Inr [], console_error [''[ReceiptsLogger] Failed to read errors:'', message] w))
   \<and> (\<exists>vs. fst (readReceipts this parse w) = Inr vs)
   \<and> (\<exists>vs. fst (getRecentReceipts this parse count w) = Inr vs)
   \<and> (\<exists>vs. fst (readErrors this parse w) = Inr vs)"
  using readReceipts_Inr[of this parse w] getRecentReceipts_Inr[of this parse count w]
    readErrors_Inr[of this parse w]
  by (simp add: readReceipts_def getRecentReceipts_def readErrors_def)

theorem reads_missing_or_unreadable_witness:
  "\<not> existsSync (errorsFile demo_logger) unreadable
   \<and> readErrors demo_logger json_parse_demo unreadable = (Inr [], unreadable)
   \<and> existsSync (receiptsFile demo_logger) unreadable
   \<and> readFileSync (receiptsFile demo_logger) unreadable
        = Inl (Error ''EACCES: permission denied'')
   \<and> readReceipts demo_logger json_parse_demo unreadable =
        (Inr [], unreadable\<lparr>console :=
           [[''[ReceiptsLogger] Failed to read receipts:'', ''EACCES: permission denied'']]\<rparr>)
   \<and> getRecentReceipts demo_logger json_parse_demo 1 unreadable =
        (Inr [], unreadable\<lparr>console :=
           [[''[ReceiptsLogger] Failed to read recent receipts:'',
             ''EACCES: permission denied'']]\<rparr>)"
proof -
  have ex: "\<not> existsSync (errorsFile demo_logger) unreadable"
    "existsSync (receiptsFile demo_logger) unreadable"
    by (simp_all add: existsSync_def unreadable_def two_receipts_def fresh_world_def
        demo_logger_def)
  have rd: "readFileSync (receiptsFile demo_logger) unreadable
              = Inl (Error ''EACCES: permission denied'')"
    by (simp add: readFileSync_def unreadable_def demo_logger_def)
  have con: "console unreadable = []"
    by (simp add: unreadable_def two_receipts_def fresh_world_def)
  from reads_missing_or_unreadable[of demo_logger unreadable json_parse_demo 1
      "''EACCES: permission denied''"] ex rd con
  show ?thesis by (simp add: console_error_def)
qed

subsection \<open>C5: lines that do not parse\<close>

text \<open>
  C5 says that a reader skips exactly the lines that fail to parse and returns all the
  lines that parse. A line \<^verbatim>\<open>null\<close> parses, to \<^verbatim>\<open>null\<close>, and the readers' final
  \<^verbatim>\<open>filter\<close> drops it with the failures, without a diagnostic: of the four lines below
  three parse, and \<open>readReceipts\<close> returns two values.
\<close>

theorem null_line_dropped:
  "List.map_filter json_parse_demo (file_lines (unlines [line1, ''null'', corrupt, line2]))
     = [receipt_json r1, JNull, receipt_json r2]
   \<and> readReceipts demo_logger json_parse_demo null_line =
       (Inr [receipt_json r1, receipt_json r2],
        null_line\<lparr>console :=
          [[''[ReceiptsLogger] Failed to parse receipt line:'', corrupt]]\<rparr>)"
proof -
  have con: "console null_line = []"
    by (simp add: null_line_def fresh_world_def)
  show ?thesis
    by (simp add: readReceipts_content[OF null_line_file] file_lines_null_line
        List.map_filter_def records_of_def unparseable_def parse_demo_simps
        receipt_json_not_null con)
qed

text \<open>
  C5, amended: on a readable file each reader skips exactly the lines that fail to parse
  and the lines that parse to \<^verbatim>\<open>null\<close>, and returns the values of the other lines in
  file order (\<open>getRecentReceipts\<close>: of the lines of its window); it calls
  \<^verbatim>\<open>console.error\<close> with its message and the line once for each line that fails to parse,
  in file order, and makes no other call. A file with one line that does not parse between
  two lines holding records yields the two records and one diagnostic, for the line
  between them. The lines of a file are the non-empty pieces of its trimmed content.
\<close>

theorem readers_skip_unparseable_and_null:
  "(files w (receiptsFile this) = Some c \<and> read_fault w (receiptsFile this) = None \<longrightarrow>
      readReceipts this parse w =
        (Inr (records_of parse (file_lines c)),
         w\<lparr>console := console w
            @ map (\<lambda>l. [''[ReceiptsLogger] Failed to parse receipt line:'', l])
                (unparseable parse (file_lines c))\<rparr>)
      \<and> getRecentReceipts this parse count w =
        (Inr (records_of parse (slice (- count) (file_lines c))),
         w\<lparr>console := console w
            @ map (\<lambda>l. [''[ReceiptsLogger] Failed to parse receipt line:'', l])
                (unparseable parse (slice (- count) (file_lines c)))\<rparr>))
   \<and> (files w (errorsFile this) = Some c \<and> read_fault w (errorsFile this) = None \<longrightarrow>
      readErrors this parse w =
        (Inr (records_of parse (file_lines c)),
         w\<lparr>console := console w
            @ map (\<lambda>l. [''[ReceiptsLogger] Failed to parse error line:'', l])
                (unparseable parse (file_lines c))\<rparr>))
   \<and> (files w (receiptsFile this) = Some (unlines [l1, bad, l2])
        \<and> read_fault w (receiptsFile this) = None
        \<and> line_safe l1 \<and> line_safe bad \<and> line_safe l2
        \<and> parse l1 = Some v1 \<and> v1 \<noteq> JNull \<and> parse bad = None
        \<and> parse l2 = Some v2 \<and> v2 \<noteq> JNull \<longrightarrow>
      readReceipts this parse w =
        (Inr [v1, v2],
         w\<lparr>console := console w
            @ [[''[ReceiptsLogger] Failed to parse receipt line:'', bad]]\<rparr>))"
  using file_lines_unlines[of "[l1, bad, l2]"]
  by (auto simp: readReceipts_content getRecentReceipts_content readErrors_content
      records_of_def unparseable_def)

theorem readers_skip_unparseable_and_null_witness:
  "files corrupt_between (receiptsFile demo_logger) = Some (unlines [line1, corrupt, line2])
   \<and> readReceipts demo_logger json_parse_demo corrupt_between =
       (Inr [receipt_json r1, receipt_json r2],
        corrupt_between\<lparr>console :=
          [[''[ReceiptsLogger] Failed to parse receipt line:'', corrupt]]\<rparr>)"
proof -
  have con: "console corrupt_between = []"
    by (simp add: corrupt_between_def fresh_world_def)
  note inst = readers_skip_unparseable_and_null[of corrupt_between demo_logger
      "unlines [line1, corrupt, line2]" json_parse_demo 0 line1 corrupt line2
      "receipt_json r1" "receipt_json r2"]
  from inst[THEN conjunct2, THEN conjunct2]
    corrupt_between_file line_safe_line1 line_safe_line2 line_safe_corrupt
  show ?thesis
    by (simp add: parse_demo_simps receipt_json_not_null con)
qed

subsection \<open>C6: an append that fails\<close>

text \<open>
  C6: when the append to its file throws, \<open>logReceipt\<close> (and \<open>logError\<close>) calls
  \<^verbatim>\<open>console.error\<close> once with the error's message, leaves every file as it was and
  returns; and in every world, the append failing or not, the caller gets the same
  \<^verbatim>\<open>void\<close> result and no error.
\<close>

theorem appends_swallow_faults:
  "(append_fault w (receiptsFile this) = Some message \<longrightarrow>
      logReceipt this stringify receipt w =
        (Inr (), console_error [''[ReceiptsLogger] Failed to log receipt:'', message] w)
      \<and> files (snd (logReceipt this stringify receipt w)) = files w)
   \<and> (append_fault w (errorsFile this) = Some message \<longrightarrow>
      logError this stringify errorLog w =
        (Inr (), console_error [''[ReceiptsLogger] Failed to log error:'', message] w)
      \<and> files (snd (logError this stringify errorLog w)) = files w)
   \<and> fst (logReceipt this stringify receipt w) = Inr ()
   \<and> fst (logError this stringify errorLog w) = Inr ()"
  by (simp add: logReceipt_def logError_def appendFileSync_def console_error_def Let_def
      split: option.splits)

theorem appends_swallow_faults_witness:
  "append_fault read_only (receiptsFile demo_logger) = Some ''EROFS: read-only file system''
   \<and> logReceipt demo_logger json_stringify_demo r1 read_only =
        (Inr (), read_only\<lparr>console :=
           [[''[ReceiptsLogger] Failed to log receipt:'', ''EROFS: read-only file system'']]\<rparr>)
   \<and> logError demo_logger json_stringify_demo e1 read_only =
        (Inr (), read_only\<lparr>console :=
           [[''[ReceiptsLogger] Failed to log error:'', ''EROFS: read-only file system'']]\<rparr>)
   \<and> fst (logReceipt demo_logger json_stringify_demo r1 fresh_world) = Inr ()"
proof -
  have af: "append_fault read_only (receiptsFile demo_logger) = Some ''EROFS: read-only file system''"
    "append_fault read_only (errorsFile demo_logger) = Some ''EROFS: read-only file system''"
    by (simp_all add: read_only_def)
  have con: "console read_only = []"
    by (simp add: read_only_def two_receipts_def fresh_world_def)
  from appends_swallow_faults[of read_only demo_logger "''EROFS: read-only file system''"
      json_stringify_demo r1 e1] af con
    appends_swallow_faults[of fresh_world demo_logger "''''" json_stringify_demo r1 e1]
  show ?thesis by (simp add: console_error_def)
qed

subsection \<open>C7: two channels\<close>

text \<open>
  C7: for a logger made by the constructor and every sequence of \<open>logReceipt\<close> and
  \<open>logError\<close> calls, what \<open>readReceipts\<close> and \<open>getRecentReceipts\<close> return afterwards
  is what they return after the \<open>logReceipt\<close> calls alone, and what \<open>readErrors\<close>
  returns is what it returns after the \<open>logError\<close> calls alone; a single \<open>logError\<close>
  leaves the results of the receipt readers unchanged, and a single \<open>logReceipt\<close> that of
  \<open>readErrors\<close>.
\<close>

theorem channels_independent:
  assumes "fst (new_ReceiptsLogger cwd w0) = Inr this"
  shows "fst (readReceipts this parse (run_calls this stringify cs w))
           = fst (readReceipts this parse
                   (run_calls this stringify (filter is_receipt_call cs) w))
         \<and> fst (getRecentReceipts this parse count (run_calls this stringify cs w))
           = fst (getRecentReceipts this parse count
                   (run_calls this stringify (filter is_receipt_call cs) w))
         \<and> fst (readErrors this parse (run_calls this stringify cs w))
           = fst (readErrors this parse
                   (run_calls this stringify (filter (\<lambda>c. \<not> is_receipt_call c) cs) w))
         \<and> fst (readReceipts this parse (snd (logError this stringify errorLog w)))
           = fst (readReceipts this parse w)
         \<and> fst (getRecentReceipts this parse count (snd (logError this stringify errorLog w)))
           = fst (getRecentReceipts this parse count w)
         \<and> fst (readErrors this parse (snd (logReceipt this stringify receipt w)))
           = fst (readErrors this parse w)"
proof -
  note ne = new_ReceiptsLogger_paths[OF assms]
  note r = run_calls_receipts_only[OF ne same_file_refl, of stringify cs w]
  note e = run_calls_errors_only[OF ne same_file_refl, of stringify cs w]
  note r1 = do_call_other_file[OF same_file_refl ne, of stringify errorLog w]
  note e1 = do_call_other_file'[OF same_file_refl ne, of stringify receipt w]
  from readReceipts_same_file[OF r] readErrors_same_file[OF e]
    readReceipts_same_file[OF r1] readErrors_same_file[OF e1]
  show ?thesis by simp
qed

theorem channels_independent_witness:
  "fst (new_ReceiptsLogger ''/app'' fresh_world) = Inr demo_logger
   \<and> fst (readReceipts demo_logger json_parse_demo
          (run_calls demo_logger json_stringify_demo
             [LogReceipt r1, LogError e1, LogReceipt r2] fresh_world))
     = Inr [receipt_json r1, receipt_json r2]"
proof -
  have "fst (readReceipts demo_logger json_parse_demo two_receipts)
          = Inr [receipt_json r1, receipt_json r2]"
    by (simp add: readReceipts_content[OF two_receipts_file] file_lines_two records_of_demo)
  with channels_independent[OF demo_logger_new, of json_parse_demo json_stringify_demo
      "[LogReceipt r1, LogError e1, LogReceipt r2]" fresh_world]
    demo_logger_new two_receipts_run
  show ?thesis by simp
qed

subsection \<open>C8: append-only\<close>

text \<open>
  C8: after a call of \<open>logReceipt\<close> or \<open>logError\<close>, and after any sequence of such
  calls, every file that existed still exists and its old content is a prefix of the new
  one; the three readers leave every file as it was.
\<close>

theorem append_only:
  "grows_at p w (snd (logReceipt this stringify receipt w))
   \<and> grows_at p w (snd (logError this stringify errorLog w))
   \<and> grows_at p w (run_calls this stringify cs w)
   \<and> files (snd (readReceipts this parse w)) = files w
   \<and> files (snd (getRecentReceipts this parse count w)) = files w
   \<and> files (snd (readErrors this parse w)) = files w"
proof -
  have "grows_at p w (snd (logReceipt this stringify receipt w))"
    "grows_at p w (snd (logError this stringify errorLog w))"
    by (simp_all add: logReceipt_def logError_def appendFileSync_def Let_def console_error_def
        grows_at_def split: option.splits)
  moreover have "files (snd (readReceipts this parse w)) = files w"
    "files (snd (getRecentReceipts this parse count w)) = files w"
    "files (snd (readErrors this parse w)) = files w"
    by (simp_all add: readReceipts_def getRecentReceipts_def readErrors_def Let_def split_beta
        map_parse_snd console_error_def split: sum.splits error.splits)
  moreover have "grows_at p w (run_calls this stringify cs w)"
    by (rule run_calls_grows)
  ultimately show ?thesis by simp
qed

theorem append_only_witness:
  "files two_receipts (receiptsFile demo_logger) = Some (unlines [line1, line2])
   \<and> files (snd (logReceipt demo_logger json_stringify_demo r1 two_receipts))
        (receiptsFile demo_logger) = Some (unlines [line1, line2] @ unlines [line1])
   \<and> grows_at (receiptsFile demo_logger) two_receipts
        (snd (logReceipt demo_logger json_stringify_demo r1 two_receipts))"
  using append_only[of "receiptsFile demo_logger" two_receipts demo_logger json_stringify_demo r1]
  by (simp add: logReceipt_def appendFileSync_def two_receipts_def fresh_world_def
      demo_logger_def json_stringify_demo_def unlines_def Let_def)

subsection \<open>C9: a negative count\<close>

text \<open>
  C9: for a negative count and a store to which the valid records \<open>rs\<close> were appended,
  \<open>getRecentReceipts\<close> returns all records but the first \<open>min \<bar>count\<bar> n\<close>: the
  \<^verbatim>\<open>slice\<close> gets a positive start and drops the oldest records.
\<close>

theorem getRecentReceipts_negative_count:
  assumes start: "files w (receiptsFile this) = None \<or> files w (receiptsFile this) = Some []"
    and nofault: "append_fault w (receiptsFile this) = None"
      "read_fault w (receiptsFile this) = None"
    and ok: "\<forall>r\<in>set rs. round_trips stringify parse (receipt_json r)"
    and neg: "count < 0"
  shows "fst (getRecentReceipts this parse count
               (run_calls this stringify (map LogReceipt rs) w))
           = Inr (map receipt_json (drop (min (nat \<bar>count\<bar>) (length rs)) rs))"
proof -
  have "slice (- count) rs = drop (min (nat \<bar>count\<bar>) (length rs)) rs"
    using neg by (simp add: slice_nonneg min_def)
  with getRecentReceipts_appended_all[OF start nofault ok, of count] show ?thesis
    by simp
qed

theorem getRecentReceipts_negative_count_witness:
  "fst (getRecentReceipts demo_logger json_parse_demo (- 1)
          (run_calls demo_logger json_stringify_demo [LogReceipt r1, LogReceipt r2] fresh_world))
     = Inr [receipt_json r2]"
  using getRecentReceipts_negative_count[of fresh_world demo_logger "[r1, r2]"
      json_stringify_demo json_parse_demo "- 1"] demo_round_trips
  by (simp add: fresh_world_def)

subsection \<open>C10: the window is taken before parsing\<close>

text \<open>
  C10: on a readable receipts file \<open>getRecentReceipts\<close> cuts its window out of the lines
  of the file and only then parses: it returns the records among the lines of the window
  and nothing from the lines before it. For a count of at least 1 the window is the last
  \<open>count\<close> lines; when one of them does not parse and an earlier line holds a record,
  the result has fewer records than \<open>count\<close> and fewer than the file holds.
\<close>

theorem getRecentReceipts_window_before_parse:
  assumes f: "files w (receiptsFile this) = Some c"
    and rf: "read_fault w (receiptsFile this) = None"
  shows "fst (getRecentReceipts this parse count w)
           = Inr (records_of parse (slice (- count) (file_lines c)))
         \<and> (1 \<le> count \<longrightarrow>
              slice (- count) (file_lines c)
                = drop (length (file_lines c) - nat count) (file_lines c)
              \<and> (unparseable parse (slice (- count) (file_lines c)) \<noteq> []
                   \<and> records_of parse
                        (take (length (file_lines c) - nat count) (file_lines c)) \<noteq> []
                 \<longrightarrow> length (records_of parse (slice (- count) (file_lines c)))
                       < min (nat count) (length (records_of parse (file_lines c)))))"
proof -
  let ?ls = "file_lines c"
  let ?n = "length ?ls - nat count"
  have res: "fst (getRecentReceipts this parse count w)
               = Inr (records_of parse (slice (- count) ?ls))"
    by (simp add: getRecentReceipts_content[OF f rf])
  have win: "slice (- count) ?ls = drop ?n ?ls" if "1 \<le> count"
    using that by (simp add: slice_neg)
  have "length (records_of parse (drop ?n ?ls)) < min (nat count) (length (records_of parse ?ls))"
    if k: "1 \<le> count" and bad: "unparseable parse (drop ?n ?ls) \<noteq> []"
      and early: "records_of parse (take ?n ?ls) \<noteq> []"
  proof -
    from early have "take ?n ?ls \<noteq> []" by (auto simp: records_of_def)
    then have "0 < ?n" by auto
    then have len: "length (drop ?n ?ls) = nat count" by simp
    from bad have "0 < length (unparseable parse (drop ?n ?ls))" by simp
    with records_unparseable_length[of parse "drop ?n ?ls"] len
    have a: "length (records_of parse (drop ?n ?ls)) < nat count" by linarith
    have "records_of parse ?ls = records_of parse (take ?n ?ls) @ records_of parse (drop ?n ?ls)"
      by (simp add: records_of_append[symmetric])
    moreover from early have "0 < length (records_of parse (take ?n ?ls))" by simp
    ultimately have "length (records_of parse (drop ?n ?ls)) < length (records_of parse ?ls)"
      by simp
    with a show ?thesis by simp
  qed
  with res win show ?thesis by simp
qed

theorem getRecentReceipts_window_before_parse_witness:
  "fst (getRecentReceipts demo_logger json_parse_demo 2 corrupt_between) = Inr [receipt_json r2]
   \<and> unparseable json_parse_demo (slice (- 2) (file_lines (unlines [line1, corrupt, line2])))
       = [corrupt]
   \<and> records_of json_parse_demo (file_lines (unlines [line1, corrupt, line2]))
       = [receipt_json r1, receipt_json r2]
   \<and> length [receipt_json r2] < min (nat 2) (length [receipt_json r1, receipt_json r2])"
  using getRecentReceipts_window_before_parse[OF corrupt_between_file, of json_parse_demo 2]
  by (simp add: file_lines_corrupt_between records_of_def unparseable_def parse_demo_simps
      receipt_json_not_null slice_def)

end
